theory Spec2Isabelle
  imports Complex_Main "HOL-Library.Sublist"
begin

section \<open>Catalog data model\<close>

text \<open>
  The catalog types \<open>ZeekField\<close> and \<open>ZeekLogType\<close> are imported by every component from
  \<open>data/zeekLogs\<close>; the members below are the ones the components read
  (\<open>field.name\<close>, \<open>field.type\<close>, \<open>field.description\<close>, \<open>field.optional\<close>,
  \<open>log.id\<close>, \<open>log.name\<close>, \<open>log.category\<close>, \<open>log.color\<close>, \<open>log.description\<close>,
  \<open>log.fields\<close>, \<open>log.relatedLogs\<close>). Member names carry a prefix because record
  selectors are global constants and \<open>id\<close> is taken by HOL.

  A JavaScript string is modelled as a \<open>string\<close>; \<open>===\<close> on strings is equality of the
  character sequences. Arrays are lists, a \<open>Set<string>\<close> is a \<open>string set\<close>.
\<close>

record ZeekField =
  field_name :: string
  field_type :: string
  field_description :: string
  field_optional :: bool

record ZeekLogType =
  log_id :: string
  log_name :: string
  log_category :: string
  log_color :: string
  log_description :: string
  log_fields :: "ZeekField list"
  relatedLogs :: "string list"

text \<open>
  \<open>String.prototype.includes(search)\<close>: the search string occurs as a contiguous run of
  the receiver. The receiver is the first argument, as in \<open>s.includes(q)\<close>.
\<close>

definition str_includes :: "string \<Rightarrow> string \<Rightarrow> bool" where
  "str_includes s q = sublist q s"

text \<open>\<open>Array.prototype.some\<close>.\<close>

abbreviation some :: "'a list \<Rightarrow> ('a \<Rightarrow> bool) \<Rightarrow> bool" where
  "some xs P \<equiv> list_ex P xs"

section \<open>Relationship resolver (GraphVisualization, second effect)\<close>

text \<open>
  Everything the effect can throw in the part modelled here is a \<open>TypeError\<close>: reading
  \<open>.fields\<close> of \<open>undefined\<close>.
\<close>

datatype js_error = TypeError

record Node =
  node_id :: string
  node_name :: string
  node_category :: string
  node_color :: string
  radius :: nat
  connections :: nat

record Link =
  source :: string
  target :: string
  strength :: nat
  pivotProperties :: "string list"
  connectionCount :: nat

subsection \<open>findPivotProperties\<close>

text \<open>The four field tests of \<open>findPivotProperties\<close>, one per \<open>fields.some(...)\<close> call.\<close>

definition hasUidField :: "ZeekLogType \<Rightarrow> bool" where
  "hasUidField lg = some (log_fields lg) (\<lambda>f. field_name f = ''uid'')"

definition hasIpFields :: "ZeekLogType \<Rightarrow> bool" where
  "hasIpFields lg =
     some (log_fields lg)
       (\<lambda>f. str_includes (field_name f) ''id.orig_h'' \<or> str_includes (field_name f) ''id.resp_h'')"

definition hasHashFields :: "ZeekLogType \<Rightarrow> bool" where
  "hasHashFields lg =
     some (log_fields lg)
       (\<lambda>f. str_includes (field_name f) ''hash'' \<or> field_name f = ''md5'' \<or> field_name f = ''sha1'')"

definition hasHostFields :: "ZeekLogType \<Rightarrow> bool" where
  "hasHostFields lg =
     some (log_fields lg)
       (\<lambda>f. field_name f = ''query'' \<or> field_name f = ''host'' \<or> field_name f = ''server_name'')"

text \<open>
  The body of \<open>findPivotProperties\<close> on two defined log types: the array \<open>pivots\<close> after
  the four conditional pushes and the final unconditional \<open>pivots.push('ts')\<close>.
\<close>

definition pivots_of :: "ZeekLogType \<Rightarrow> ZeekLogType \<Rightarrow> string list" where
  "pivots_of log1 log2 =
     (if hasUidField log1 \<and> hasUidField log2 then [''uid''] else []) @
     (if hasIpFields log1 \<and> hasIpFields log2 then [''IP''] else []) @
     (if hasHashFields log1 \<and> hasHashFields log2 then [''hash''] else []) @
     (if hasHostFields log1 \<and> hasHostFields log2 then [''hostname''] else []) @
     [''ts'']"

text \<open>
  The call site passes \<open>filteredData.find(...)!\<close>; the non-null assertion is erased at
  run time, so either argument may be \<open>undefined\<close> (\<open>None\<close>). The first statement reads
  \<open>log1.fields\<close>; \<open>log2.fields\<close> is read at the latest by the unguarded
  \<open>const hasIpFields2 = log2.fields.some(...)\<close>. Both reads throw on \<open>undefined\<close>.
\<close>

fun findPivotProperties :: "ZeekLogType option \<Rightarrow> ZeekLogType option \<Rightarrow> js_error + string list" where
  "findPivotProperties None _ = Inl TypeError"
| "findPivotProperties (Some log1) None = Inl TypeError"
| "findPivotProperties (Some log1) (Some log2) = Inr (pivots_of log1 log2)"

subsection \<open>Node construction\<close>

definition filteredData :: "ZeekLogType list \<Rightarrow> string set \<Rightarrow> ZeekLogType list" where
  "filteredData data activeNodes = filter (\<lambda>lg. log_id lg \<in> activeNodes) data"

definition connections_of :: "string set \<Rightarrow> ZeekLogType \<Rightarrow> nat" where
  "connections_of activeNodes lg =
     length (filter (\<lambda>relatedId. relatedId \<in> activeNodes) (relatedLogs lg))"

definition make_node :: "string set \<Rightarrow> ZeekLogType \<Rightarrow> Node" where
  "make_node activeNodes lg =
     (let connections = connections_of activeNodes lg in
      \<lparr> node_id = log_id lg,
        node_name = log_name lg,
        node_category = log_category lg,
        node_color = log_color lg,
        radius = max 20 (15 + connections * 5),
        connections = connections \<rparr>)"

definition nodes :: "ZeekLogType list \<Rightarrow> string set \<Rightarrow> Node list" where
  "nodes data activeNodes = map (make_node activeNodes) (filteredData data activeNodes)"

subsection \<open>Link construction\<close>

text \<open>
  \<open>links.find(link => ...)\<close> returns a link object or \<open>undefined\<close>; \<open>!existingLink\<close>
  only asks whether one was found.
\<close>

definition existingLink :: "Link list \<Rightarrow> string \<Rightarrow> string \<Rightarrow> bool" where
  "existingLink links logId relatedId =
     some links (\<lambda>link. (source link = logId \<and> target link = relatedId) \<or>
                        (source link = relatedId \<and> target link = logId))"

text \<open>
  \<open>Array.prototype.forEach\<close> with a callback that updates a captured variable (here the
  array \<open>links\<close>) and may throw: the state is threaded through the calls and an exception
  leaves the loop at once.
\<close>

fun forEach :: "'a list \<Rightarrow> ('a \<Rightarrow> 's \<Rightarrow> 'e + 's) \<Rightarrow> 's \<Rightarrow> 'e + 's" where
  "forEach [] f s = Inr s"
| "forEach (x # xs) f s = (case f x s of Inl e \<Rightarrow> Inl e | Inr s' \<Rightarrow> forEach xs f s')"

text \<open>
  The callback of the inner \<open>log.relatedLogs.forEach\<close>, for the log type \<open>lg\<close> of the outer
  loop; \<open>fd\<close> is \<open>filteredData\<close>.
\<close>

definition visit_related ::
  "ZeekLogType list \<Rightarrow> string set \<Rightarrow> ZeekLogType \<Rightarrow> string \<Rightarrow> Link list \<Rightarrow> js_error + Link list" where
  "visit_related fd activeNodes lg relatedId links =
     (if relatedId \<in> activeNodes \<and> log_id lg \<noteq> relatedId then
        (if \<not> existingLink links (log_id lg) relatedId then
           (let sourceLog = find (\<lambda>l. log_id l = log_id lg) fd;
                targetLog = find (\<lambda>l. log_id l = relatedId) fd
            in case findPivotProperties sourceLog targetLog of
                 Inl e \<Rightarrow> Inl e
               | Inr pivotProps \<Rightarrow>
                   Inr (links @ [\<lparr> source = log_id lg,
                                    target = relatedId,
                                    strength = 1,
                                    pivotProperties = pivotProps,
                                    connectionCount = length pivotProps \<rparr>]))
         else Inr links)
      else Inr links)"

text \<open>The callback of the outer \<open>filteredData.forEach\<close>.\<close>

definition visit_log ::
  "ZeekLogType list \<Rightarrow> string set \<Rightarrow> ZeekLogType \<Rightarrow> Link list \<Rightarrow> js_error + Link list" where
  "visit_log fd activeNodes lg links =
     forEach (relatedLogs lg) (visit_related fd activeNodes lg) links"

definition build_links :: "ZeekLogType list \<Rightarrow> string set \<Rightarrow> js_error + Link list" where
  "build_links data activeNodes =
     (let fd = filteredData data activeNodes in forEach fd (visit_log fd activeNodes) [])"


text \<open>The unordered pair of ids an edge joins.\<close>

definition endpoints :: "Link \<Rightarrow> string set" where
  "endpoints link = {source link, target link}"

subsection \<open>The effect as a whole\<close>

text \<open>
  \<open>dimensions\<close> holds what \<open>getBoundingClientRect\<close> measured. The effect only compares the
  two numbers with \<open>0\<close> and halves them, so they are modelled as reals.
\<close>

record Dimensions =
  width :: real
  height :: real

text \<open>
  What \<open>d3.forceSimulation(nodes)\<close> is set up with: the node array, the link array given to
  \<open>forceLink\<close>, and the point given to \<open>forceCenter\<close>.
\<close>

record Simulation =
  sim_nodes :: "Node list"
  sim_links :: "Link list"
  center_x :: real
  center_y :: real

text \<open>
  The three ways the effect body ends: an early \<open>return\<close> before any simulation exists, an
  exception out of link construction (also before \<open>d3.forceSimulation\<close> is reached), or a
  constructed simulation. The first argument says whether \<open>svgRef.current\<close> is set.
\<close>

datatype effect_outcome = NotStarted | Thrown js_error | Started Simulation

definition graph_effect ::
  "bool \<Rightarrow> Dimensions \<Rightarrow> ZeekLogType list \<Rightarrow> string set \<Rightarrow> effect_outcome" where
  "graph_effect svgRef_current dimensions data activeNodes =
     (if \<not> svgRef_current \<or> width dimensions = 0 \<or> height dimensions = 0 then NotStarted
      else if length (filteredData data activeNodes) = 0 then NotStarted
      else case build_links data activeNodes of
             Inl e \<Rightarrow> Thrown e
           | Inr links \<Rightarrow>
               Started \<lparr> sim_nodes = nodes data activeNodes,
                         sim_links = links,
                         center_x = width dimensions / 2,
                         center_y = height dimensions / 2 \<rparr>)"

text \<open>
  What the component shows after the effect has run for the current props. Before the
  effect runs again React calls the clean-up of the previous run (\<open>simulation.stop()\<close>), so
  the only simulation that can be running is the one the current run started. The overlay
  "No Log Types Selected" is rendered under \<open>activeNodes.size === 0\<close>.
\<close>

record GraphView =
  simulation :: "Simulation option"
  emptyStateShown :: bool

definition GraphVisualization ::
  "bool \<Rightarrow> Dimensions \<Rightarrow> ZeekLogType list \<Rightarrow> string set \<Rightarrow> GraphView" where
  "GraphVisualization svgRef_current dimensions data activeNodes =
     \<lparr> simulation =
         (case graph_effect svgRef_current dimensions data activeNodes of
            Started sim \<Rightarrow> Some sim
          | _ \<Rightarrow> None),
       emptyStateShown = (activeNodes = {}) \<rparr>"

section \<open>Selection and filter state (App)\<close>

record AppState =
  activeNodes :: "string set"
  selectedNode :: "string option"
  selectedCategories :: "string set"
  searchQuery :: string

text \<open>
  \<open>toggleNode\<close>: the updater passed to \<open>setActiveNodes\<close> copies the set, deletes or adds the
  id, and on deletion of the selected id calls \<open>setSelectedNode(null)\<close>.
\<close>

definition toggleNode :: "string \<Rightarrow> AppState \<Rightarrow> AppState" where
  "toggleNode nodeId st =
     (if nodeId \<in> activeNodes st then
        st\<lparr> activeNodes := activeNodes st - {nodeId},
            selectedNode := (if selectedNode st = Some nodeId then None else selectedNode st) \<rparr>
      else st\<lparr> activeNodes := insert nodeId (activeNodes st) \<rparr>)"

definition toggleCategory :: "string \<Rightarrow> AppState \<Rightarrow> AppState" where
  "toggleCategory categoryId st =
     (if categoryId \<in> selectedCategories st then
        st\<lparr> selectedCategories := selectedCategories st - {categoryId} \<rparr>
      else st\<lparr> selectedCategories := insert categoryId (selectedCategories st) \<rparr>)"

text \<open>
  \<open>toggleAllInCategory\<close>. The catalog \<open>zeekLogs\<close> is a parameter. The callback of
  \<open>categoryLogs.forEach\<close> works on the pair of the set being built and the pending value
  of \<open>selectedNode\<close>; the \<open>selectedNode\<close> it compares with is the one the handler closed
  over, which stays the same during the loop.
\<close>

definition categoryLogs :: "ZeekLogType list \<Rightarrow> string \<Rightarrow> ZeekLogType list" where
  "categoryLogs zeekLogs categoryId = filter (\<lambda>lg. log_category lg = categoryId) zeekLogs"

definition toggle_each ::
  "bool \<Rightarrow> string option \<Rightarrow> ZeekLogType \<Rightarrow> string set \<times> string option \<Rightarrow> string set \<times> string option" where
  "toggle_each enable closedOver lg acc =
     (case acc of (newSet, pending) \<Rightarrow>
        if enable then (insert (log_id lg) newSet, pending)
        else (newSet - {log_id lg},
              if closedOver = Some (log_id lg) then None else pending))"

definition toggleAllInCategory :: "ZeekLogType list \<Rightarrow> string \<Rightarrow> bool \<Rightarrow> AppState \<Rightarrow> AppState" where
  "toggleAllInCategory zeekLogs categoryId enable st =
     (case fold (toggle_each enable (selectedNode st)) (categoryLogs zeekLogs categoryId)
             (activeNodes st, selectedNode st) of
        (newSet, pending) \<Rightarrow> st\<lparr> activeNodes := newSet, selectedNode := pending \<rparr>)"

text \<open>
  \<open>filteredLogs\<close>. \<open>String.prototype.toLowerCase\<close> belongs to the host and is a parameter;
  \<open>if (searchQuery)\<close> tests for the non-empty string.
\<close>

definition filteredLogs ::
  "(string \<Rightarrow> string) \<Rightarrow> ZeekLogType list \<Rightarrow> string set \<Rightarrow> string \<Rightarrow> ZeekLogType list" where
  "filteredLogs toLowerCase zeekLogs selectedCats query0 =
     filter (\<lambda>lg.
       if log_category lg \<notin> selectedCats then False
       else if query0 \<noteq> [] then
         (let query = toLowerCase query0;
              matchesName = str_includes (toLowerCase (log_name lg)) query;
              matchesDescription = str_includes (toLowerCase (log_description lg)) query;
              matchesFields = some (log_fields lg) (\<lambda>field.
                str_includes (toLowerCase (field_name field)) query \<or>
                str_includes (toLowerCase (field_description field)) query)
          in if \<not> matchesName \<and> \<not> matchesDescription \<and> \<not> matchesFields then False else True)
       else True) zeekLogs"

text \<open>Lower-casing of the ASCII letters, for running \<open>filteredLogs\<close> on ASCII text.\<close>

definition ascii_toLowerCase :: "string \<Rightarrow> string" where
  "ascii_toLowerCase s =
     map (\<lambda>c. if 65 \<le> (of_char c :: nat) \<and> (of_char c :: nat) \<le> 90
               then char_of ((of_char c :: nat) + 32) else c) s"

section \<open>Field type styling (getTypeColor)\<close>

text \<open>
  \<open>colors\<close> is an ordinary object literal, so \<open>colors[type]\<close> is a property read: the
  object's own properties first, then those inherited from \<open>Object.prototype\<close>. The own
  values are strings; an inherited member is a function (or, for \<open>__proto__\<close>, the
  prototype object itself). A value of \<open>getTypeColor\<close> is therefore either a string or
  such an inherited member, named here by its key.
\<close>

datatype js_value = JsString string | ObjectPrototypeMember string

definition object_prototype_keys :: "string list" where
  "object_prototype_keys =
     [''constructor'', ''hasOwnProperty'', ''isPrototypeOf'', ''propertyIsEnumerable'',
      ''toLocaleString'', ''toString'', ''valueOf'', ''__proto__'',
      ''__defineGetter__'', ''__defineSetter__'', ''__lookupGetter__'', ''__lookupSetter__'']"

definition get_property :: "(string \<times> string) list \<Rightarrow> string \<Rightarrow> js_value option" where
  "get_property own key =
     (case map_of own key of
        Some v \<Rightarrow> Some (JsString v)
      | None \<Rightarrow> if key \<in> set object_prototype_keys then Some (ObjectPrototypeMember key) else None)"

text \<open>
  \<open>a || b\<close> with a string \<open>b\<close>: \<open>undefined\<close> and the empty string are falsy, functions and
  objects are truthy.
\<close>

fun or_else :: "js_value option \<Rightarrow> string \<Rightarrow> js_value" where
  "or_else None b = JsString b"
| "or_else (Some (JsString s)) b = (if s \<noteq> [] then JsString s else JsString b)"
| "or_else (Some (ObjectPrototypeMember k)) b = ObjectPrototypeMember k"

text \<open>The table and default of \<open>FieldDetails.tsx\<close>.\<close>

definition colors :: "(string \<times> string) list" where
  "colors =
     [(''time'', ''text-blue-400 bg-blue-400/10 border-blue-400/20''),
      (''string'', ''text-green-400 bg-green-400/10 border-green-400/20''),
      (''addr'', ''text-purple-400 bg-purple-400/10 border-purple-400/20''),
      (''port'', ''text-yellow-400 bg-yellow-400/10 border-yellow-400/20''),
      (''count'', ''text-orange-400 bg-orange-400/10 border-orange-400/20''),
      (''bool'', ''text-pink-400 bg-pink-400/10 border-pink-400/20''),
      (''interval'', ''text-cyan-400 bg-cyan-400/10 border-cyan-400/20''),
      (''enum'', ''text-indigo-400 bg-indigo-400/10 border-indigo-400/20''),
      (''vector'', ''text-red-400 bg-red-400/10 border-red-400/20''),
      (''set'', ''text-emerald-400 bg-emerald-400/10 border-emerald-400/20''),
      (''record'', ''text-violet-400 bg-violet-400/10 border-violet-400/20'')]"

definition default_color :: string where
  "default_color = ''text-slate-400 bg-slate-400/10 border-slate-400/20''"

definition getTypeColor :: "string \<Rightarrow> js_value" where
  "getTypeColor type = or_else (get_property colors type) default_color"

text \<open>The table and default of the log type card (the second \<open>getTypeColor\<close>).\<close>

definition card_colors :: "(string \<times> string) list" where
  "card_colors =
     [(''time'', ''text-blue-400''),
      (''string'', ''text-green-400''),
      (''addr'', ''text-purple-400''),
      (''port'', ''text-yellow-400''),
      (''count'', ''text-orange-400''),
      (''bool'', ''text-pink-400''),
      (''interval'', ''text-cyan-400''),
      (''enum'', ''text-indigo-400''),
      (''vector'', ''text-red-400''),
      (''set'', ''text-emerald-400''),
      (''record'', ''text-violet-400'')]"

definition card_default_color :: string where
  "card_default_color = ''text-slate-400''"

definition card_getTypeColor :: "string \<Rightarrow> js_value" where
  "card_getTypeColor type = or_else (get_property card_colors type) card_default_color"


section \<open>Properties of the edges and a sample catalog\<close>

text \<open>
  An edge is well formed over \<open>filteredData\<close> when both of its ids are found there and its
  pivot data are those of the two log types found.
\<close>

definition edge_ok :: "ZeekLogType list \<Rightarrow> Link \<Rightarrow> bool" where
  "edge_ok fd link \<longleftrightarrow>
     (\<exists>s t. find (\<lambda>l. log_id l = source link) fd = Some s \<and>
            find (\<lambda>l. log_id l = target link) fd = Some t \<and>
            pivotProperties link = pivots_of s t \<and>
            connectionCount link = length (pivots_of s t))"

text \<open>
  A three-entry catalog in the shape of the real one: \<open>conn\<close> lists \<open>dns\<close> and \<open>http\<close>, and
  each of them lists \<open>conn\<close>.
\<close>

definition sample_field :: "string \<Rightarrow> string \<Rightarrow> ZeekField" where
  "sample_field n t =
     \<lparr> field_name = n, field_type = t, field_description = ''Sample field'',
       field_optional = False \<rparr>"

definition sample_conn :: ZeekLogType where
  "sample_conn =
     \<lparr> log_id = ''conn'', log_name = ''conn.log'', log_category = ''network'',
       log_color = ''#3B82F6'', log_description = ''TCP, UDP and ICMP connections'',
       log_fields = [sample_field ''ts'' ''time'', sample_field ''uid'' ''string'',
                     sample_field ''id.orig_h'' ''addr'', sample_field ''id.resp_h'' ''addr''],
       relatedLogs = [''dns'', ''http''] \<rparr>"

definition sample_dns :: ZeekLogType where
  "sample_dns =
     \<lparr> log_id = ''dns'', log_name = ''dns.log'', log_category = ''network'',
       log_color = ''#10B981'', log_description = ''DNS requests and replies'',
       log_fields = [sample_field ''ts'' ''time'', sample_field ''uid'' ''string'',
                     sample_field ''id.orig_h'' ''addr'', sample_field ''query'' ''string''],
       relatedLogs = [''conn''] \<rparr>"

definition sample_http :: ZeekLogType where
  "sample_http =
     \<lparr> log_id = ''http'', log_name = ''http.log'', log_category = ''application'',
       log_color = ''#F59E0B'', log_description = ''HTTP requests and replies'',
       log_fields = [sample_field ''ts'' ''time'', sample_field ''uid'' ''string'',
                     sample_field ''id.resp_h'' ''addr'', sample_field ''host'' ''string''],
       relatedLogs = [''conn''] \<rparr>"

definition sample_catalog :: "ZeekLogType list" where
  "sample_catalog = [sample_conn, sample_dns, sample_http]"

definition sample_active :: "string set" where
  "sample_active = {''conn'', ''dns'', ''http''}"

definition sample_links :: "Link list" where
  "sample_links =
     [\<lparr> source = ''conn'', target = ''dns'', strength = 1,
        pivotProperties = [''uid'', ''IP'', ''ts''], connectionCount = 3 \<rparr>,
      \<lparr> source = ''conn'', target = ''http'', strength = 1,
        pivotProperties = [''uid'', ''IP'', ''ts''], connectionCount = 3 \<rparr>]"

definition sample_dimensions :: Dimensions where
  "sample_dimensions = \<lparr> width = 800, height = 600 \<rparr>"

definition sample_state :: AppState where
  "sample_state =
     \<lparr> activeNodes = sample_active, selectedNode = Some ''dns'',
       selectedCategories = {''network'', ''application''}, searchQuery = [] \<rparr>"

text \<open>
  A catalog whose only entry lists an id, \<open>ghost\<close>, that no entry has, and an active set
  that contains that id.
\<close>

definition dangling_catalog :: "ZeekLogType list" where
  "dangling_catalog = [sample_conn\<lparr> relatedLogs := [''ghost''] \<rparr>]"

definition dangling_active :: "string set" where
  "dangling_active = {''conn'', ''ghost''}"

text \<open>
  The two entries \<open>conn\<close> and \<open>dns\<close> list each other, \<open>conn\<close> also lists the id \<open>ghost\<close>
  that no entry has, and all three ids are active.
\<close>

definition mutual_dangling_catalog :: "ZeekLogType list" where
  "mutual_dangling_catalog = [sample_conn\<lparr> relatedLogs := [''dns'', ''ghost''] \<rparr>, sample_dns]"

definition mutual_dangling_active :: "string set" where
  "mutual_dangling_active = {''conn'', ''dns'', ''ghost''}"


section \<open>Loops with a callback\<close>

text \<open>An invariant of the threaded state holds at the end of a loop that returns.\<close>

lemma forEach_invariant:
  assumes "forEach xs f s = Inr s'" and "I s"
    and "\<And>x t t'. x \<in> set xs \<Longrightarrow> I t \<Longrightarrow> f x t = Inr t' \<Longrightarrow> I t'"
  shows "I s'"
  using assms
proof (induction xs arbitrary: s)
  case Nil
  then show ?case by simp
next
  case (Cons x xs)
  from Cons.prems(1) obtain m where m: "f x s = Inr m" "forEach xs f m = Inr s'"
    by (auto split: sum.splits)
  have "I m" using Cons.prems(3)[of x s m] Cons.prems(2) m(1) by simp
  show ?case
    by (rule Cons.IH[OF m(2) \<open>I m\<close>]) (use Cons.prems(3) in auto)
qed

text \<open>Every element of a loop that returns had its callback called, and that call returned.\<close>

lemma forEach_visits:
  assumes "forEach xs f s = Inr s'" and "x \<in> set xs"
  shows "\<exists>ys zs t t'. xs = ys @ x # zs \<and> forEach ys f s = Inr t \<and> f x t = Inr t' \<and>
           forEach zs f t' = Inr s'"
  using assms
proof (induction xs arbitrary: s)
  case Nil
  then show ?case by simp
next
  case (Cons y xs)
  from Cons.prems(1) obtain m where m: "f y s = Inr m" "forEach xs f m = Inr s'"
    by (auto split: sum.splits)
  show ?case
  proof (cases "x = y")
    case True
    have "y # xs = [] @ x # xs \<and> forEach [] f s = Inr s \<and> f x s = Inr m \<and> forEach xs f m = Inr s'"
      using True m by simp
    then show ?thesis by blast
  next
    case False
    with Cons.prems(2) have "x \<in> set xs" by simp
    from Cons.IH[OF m(2) this] obtain ys zs t t' where
      h: "xs = ys @ x # zs" "forEach ys f m = Inr t" "f x t = Inr t'" "forEach zs f t' = Inr s'"
      by blast
    have "y # xs = (y # ys) @ x # zs \<and> forEach (y # ys) f s = Inr t \<and> f x t = Inr t' \<and>
          forEach zs f t' = Inr s'"
      using h m(1) by simp
    then show ?thesis by blast
  qed
qed

text \<open>A loop whose callback always returns, returns.\<close>

lemma forEach_returns:
  assumes "\<And>x t. x \<in> set xs \<Longrightarrow> \<exists>t'. f x t = Inr t'"
  shows "\<exists>s'. forEach xs f s = Inr s'"
  using assms
proof (induction xs arbitrary: s)
  case Nil
  then show ?case by simp
next
  case (Cons x xs)
  from Cons.prems[of x s] obtain m where m: "f x s = Inr m" by auto
  from Cons.IH[of m] Cons.prems obtain s' where "forEach xs f m = Inr s'" by auto
  with m show ?case by simp
qed

section \<open>Link construction: what the edge list looks like\<close>

lemma existingLink_iff: "existingLink links a b \<longleftrightarrow> {a, b} \<in> endpoints ` set links"
  unfolding existingLink_def list_ex_iff endpoints_def image_iff doubleton_eq_iff by blast

text \<open>What one call of the inner callback does when it returns.\<close>

lemma visit_related_cases:
  assumes "visit_related fd act lg r links = Inr links'"
  obtains (skip) "links' = links" "r \<notin> act \<or> log_id lg = r \<or> existingLink links (log_id lg) r"
  | (push) s t where "r \<in> act" "log_id lg \<noteq> r" "\<not> existingLink links (log_id lg) r"
      "find (\<lambda>l. log_id l = log_id lg) fd = Some s" "find (\<lambda>l. log_id l = r) fd = Some t"
      "links' = links @ [\<lparr> source = log_id lg, target = r, strength = 1,
          pivotProperties = pivots_of s t, connectionCount = length (pivots_of s t) \<rparr>]"
proof (cases "r \<in> act \<and> log_id lg \<noteq> r \<and> \<not> existingLink links (log_id lg) r")
  case False
  with assms have "links' = links" by (simp add: visit_related_def split: if_splits)
  with False skip show ?thesis by blast
next
  case True
  with assms have fp: "findPivotProperties (find (\<lambda>l. log_id l = log_id lg) fd) (find (\<lambda>l. log_id l = r) fd)
      = Inr (pivotProperties (last links')) \<and> links' = links @ [\<lparr> source = log_id lg, target = r, strength = 1,
          pivotProperties = pivotProperties (last links'), connectionCount = length (pivotProperties (last links')) \<rparr>]"
    by (simp add: visit_related_def Let_def split: sum.splits) auto
  then obtain s t where st: "find (\<lambda>l. log_id l = log_id lg) fd = Some s" "find (\<lambda>l. log_id l = r) fd = Some t"
     "pivotProperties (last links') = pivots_of s t"
    by (cases "find (\<lambda>l. log_id l = log_id lg) fd"; cases "find (\<lambda>l. log_id l = r) fd") auto
  show ?thesis
    using push[OF _ _ _ st(1,2)] True fp st(3) by simp
qed

lemma visit_related_distinct:
  assumes "visit_related fd act lg r links = Inr links'" and "distinct (map endpoints links)"
  shows "distinct (map endpoints links')"
  using assms(1)
proof (cases rule: visit_related_cases)
  case skip
  with assms(2) show ?thesis by simp
next
  case (push s t)
  from push(3) have "{log_id lg, r} \<notin> endpoints ` set links"
    by (simp add: existingLink_iff)
  with assms(2) push(6) show ?thesis
    by (simp add: endpoints_def)
qed

lemma visit_related_mono:
  assumes "visit_related fd act lg r links = Inr links'"
  shows "set links \<subseteq> set links'"
  using assms by (cases rule: visit_related_cases) auto

lemma visit_related_covers:
  assumes "visit_related fd act lg r links = Inr links'" and "r \<in> act" and "log_id lg \<noteq> r"
  shows "{log_id lg, r} \<in> endpoints ` set links'"
  using assms(1)
proof (cases rule: visit_related_cases)
  case skip
  with assms(2,3) show ?thesis by (simp add: existingLink_iff)
next
  case (push s t)
  then show ?thesis by (simp add: endpoints_def)
qed

lemma visit_log_distinct:
  assumes "visit_log fd act lg links = Inr links'" and "distinct (map endpoints links)"
  shows "distinct (map endpoints links')"
  using assms unfolding visit_log_def
  by (rule forEach_invariant) (rule visit_related_distinct)

lemma visit_log_mono:
  assumes "visit_log fd act lg links = Inr links'"
  shows "set links \<subseteq> set links'"
proof -
  have "set links \<subseteq> set links" by simp
  with assms[unfolded visit_log_def] show ?thesis
    by (rule forEach_invariant[where I = "\<lambda>t. set links \<subseteq> set t"])
       (use visit_related_mono in blast)
qed

lemma visit_log_covers:
  assumes "visit_log fd act lg links = Inr links'" and "r \<in> set (relatedLogs lg)"
    and "r \<in> act" and "log_id lg \<noteq> r"
  shows "{log_id lg, r} \<in> endpoints ` set links'"
proof -
  from forEach_visits[OF assms(1)[unfolded visit_log_def] assms(2)] obtain zs t t' where
    h: "visit_related fd act lg r t = Inr t'" "forEach zs (visit_related fd act lg) t' = Inr links'"
    by blast
  have c: "{log_id lg, r} \<in> endpoints ` set t'"
    by (rule visit_related_covers[OF h(1) assms(3,4)])
  have "set t' \<subseteq> set t'" by simp
  with h(2) have "set t' \<subseteq> set links'"
    by (rule forEach_invariant[where I = "\<lambda>u. set t' \<subseteq> set u"])
       (use visit_related_mono in blast)
  with c show ?thesis by blast
qed

lemma build_links_distinct:
  assumes "build_links data act = Inr links"
  shows "distinct (map endpoints links)"
proof -
  have "distinct (map endpoints ([] :: Link list))" by simp
  with assms[unfolded build_links_def Let_def] show ?thesis
    by (rule forEach_invariant) (rule visit_log_distinct)
qed

lemma build_links_covers:
  assumes "build_links data act = Inr links" and "lg \<in> set data" and "log_id lg \<in> act"
    and "r \<in> set (relatedLogs lg)" and "r \<in> act" and "log_id lg \<noteq> r"
  shows "{log_id lg, r} \<in> endpoints ` set links"
proof -
  let ?fd = "filteredData data act"
  from assms(2,3) have "lg \<in> set ?fd" by (simp add: filteredData_def)
  from forEach_visits[OF assms(1)[unfolded build_links_def Let_def] this] obtain zs t t' where
    h: "visit_log ?fd act lg t = Inr t'" "forEach zs (visit_log ?fd act) t' = Inr links"
    by blast
  have c: "{log_id lg, r} \<in> endpoints ` set t'"
    by (rule visit_log_covers[OF h(1) assms(4,5,6)])
  have "set t' \<subseteq> set t'" by simp
  with h(2) have "set t' \<subseteq> set links"
    by (rule forEach_invariant[where I = "\<lambda>u. set t' \<subseteq> set u"])
       (use visit_log_mono in blast)
  with c show ?thesis by blast
qed

lemma distinct_map_count_le1:
  "distinct (map f xs) \<Longrightarrow> length (filter (\<lambda>x. f x = y) xs) \<le> 1"
  by (induction xs) (auto simp: filter_empty_conv image_iff)

lemma member_count_pos:
  "y \<in> f ` set xs \<Longrightarrow> 1 \<le> length (filter (\<lambda>x. f x = y) xs)"
  by (induction xs) auto

lemma visit_related_edge_ok:
  assumes "visit_related fd act lg r links = Inr links'" and "\<forall>link\<in>set links. edge_ok fd link"
  shows "\<forall>link\<in>set links'. edge_ok fd link"
  using assms(1)
proof (cases rule: visit_related_cases)
  case skip
  with assms(2) show ?thesis by simp
next
  case (push s t)
  have "edge_ok fd \<lparr> source = log_id lg, target = r, strength = 1,
          pivotProperties = pivots_of s t, connectionCount = length (pivots_of s t) \<rparr>"
    unfolding edge_ok_def using push(4,5) by simp
  with assms(2) push(6) show ?thesis by simp
qed

lemma build_links_edge_ok:
  assumes "build_links data act = Inr links"
  shows "\<forall>link\<in>set links. edge_ok (filteredData data act) link"
proof -
  let ?fd = "filteredData data act"
  have step: "\<forall>link\<in>set t'. edge_ok ?fd link"
    if "visit_log ?fd act lg t = Inr t'" "\<forall>link\<in>set t. edge_ok ?fd link" for lg t t'
    using that unfolding visit_log_def
    by (rule forEach_invariant) (rule visit_related_edge_ok)
  have "\<forall>link\<in>set ([] :: Link list). edge_ok ?fd link" by simp
  with assms[unfolded build_links_def Let_def] show ?thesis
    by (rule forEach_invariant) (rule step)
qed

lemma pivots_of_tags:
  "''ts'' \<in> set (pivots_of s t)"
  "''uid'' \<in> set (pivots_of s t) \<longleftrightarrow> hasUidField s \<and> hasUidField t"
  "''IP'' \<in> set (pivots_of s t) \<longleftrightarrow> hasIpFields s \<and> hasIpFields t"
  "''hash'' \<in> set (pivots_of s t) \<longleftrightarrow> hasHashFields s \<and> hasHashFields t"
  "''hostname'' \<in> set (pivots_of s t) \<longleftrightarrow> hasHostFields s \<and> hasHostFields t"
  "''ip'' \<notin> set (pivots_of s t)"
  by (simp_all add: pivots_of_def)

lemma find_id_Some_iff: "(\<exists>s. find (\<lambda>l. log_id l = i) xs = Some s) \<longleftrightarrow> i \<in> log_id ` set xs"
  by (induction xs) auto

text \<open>
  An id that is active, is listed by an active log type and belongs to no catalog entry
  always makes the resolver throw.
\<close>

lemma build_links_dangling_active:
  assumes "lg \<in> set data" and "log_id lg \<in> act" and "r \<in> set (relatedLogs lg)"
    and "r \<in> act" and "r \<notin> log_id ` set data"
  shows "build_links data act = Inl TypeError"
proof (cases "build_links data act")
  case (Inl e)
  then show ?thesis by (cases e) simp
next
  case (Inr links)
  from assms(1,5) have ne: "log_id lg \<noteq> r" by blast
  from build_links_covers[OF Inr assms(1,2,3,4) ne] obtain link where
    l: "link \<in> set links" "endpoints link = {log_id lg, r}" by auto
  from build_links_edge_ok[OF Inr] l(1) have "edge_ok (filteredData data act) link" by blast
  then have "source link \<in> log_id ` set (filteredData data act)"
    "target link \<in> log_id ` set (filteredData data act)"
    unfolding edge_ok_def using find_id_Some_iff by blast+
  then have "source link \<in> log_id ` set data" "target link \<in> log_id ` set data"
    by (auto simp: filteredData_def)
  moreover from l(2) have "r = source link \<or> r = target link"
    by (auto simp: endpoints_def doubleton_eq_iff)
  ultimately show ?thesis using assms(5) by blast
qed

text \<open>
  When every active id listed by an active log type is the id of a catalog entry, the
  resolver returns an edge list. An id listed in \<open>relatedLogs\<close> that is not active is
  skipped whether or not the catalog has it.
\<close>

lemma visit_related_returns:
  assumes "lg \<in> set fd" and "r \<in> act \<and> log_id lg \<noteq> r \<longrightarrow> r \<in> log_id ` set fd"
  shows "\<exists>links'. visit_related fd act lg r links = Inr links'"
proof -
  from assms(1) have "log_id lg \<in> log_id ` set fd" by blast
  then obtain s where s: "find (\<lambda>l. log_id l = log_id lg) fd = Some s"
    using find_id_Some_iff by blast
  show ?thesis
  proof (cases "r \<in> act \<and> log_id lg \<noteq> r")
    case True
    with assms(2) obtain t where t: "find (\<lambda>l. log_id l = r) fd = Some t"
      using find_id_Some_iff by blast
    show ?thesis by (simp add: visit_related_def s t)
  next
    case False
    then show ?thesis by (auto simp: visit_related_def)
  qed
qed

lemma build_links_returns:
  assumes "\<forall>lg\<in>set data. log_id lg \<in> act \<longrightarrow>
             (\<forall>r\<in>set (relatedLogs lg). r \<in> act \<longrightarrow> r \<in> log_id ` set data)"
  shows "\<exists>links. build_links data act = Inr links"
proof -
  let ?fd = "filteredData data act"
  have ids: "r \<in> log_id ` set ?fd" if "r \<in> log_id ` set data" "r \<in> act" for r
    using that by (auto simp: filteredData_def)
  have inner: "\<exists>t'. visit_log ?fd act lg t = Inr t'" if "lg \<in> set ?fd" for lg t
    unfolding visit_log_def
  proof (rule forEach_returns)
    fix r u assume r: "r \<in> set (relatedLogs lg)"
    from that have "lg \<in> set data" "log_id lg \<in> act" by (auto simp: filteredData_def)
    with assms r have "r \<in> act \<longrightarrow> r \<in> log_id ` set ?fd" using ids by blast
    then show "\<exists>t'. visit_related ?fd act lg r u = Inr t'"
      using visit_related_returns[OF that] by blast
  qed
  show ?thesis unfolding build_links_def Let_def
    by (rule forEach_returns) (rule inner)
qed

text \<open>With a measured viewport and at least one active catalog entry the simulation is set up.\<close>

lemma graph_effect_started:
  assumes "svgRef_current" and "width dimensions \<noteq> 0" and "height dimensions \<noteq> 0"
    and "filteredData data act \<noteq> []" and "build_links data act = Inr links"
  shows "graph_effect svgRef_current dimensions data act =
           Started \<lparr> sim_nodes = nodes data act, sim_links = links,
                     center_x = width dimensions / 2, center_y = height dimensions / 2 \<rparr>"
  using assms by (simp add: graph_effect_def)

section \<open>Dangling references\<close>

text \<open>
  C1. The claim is that a \<open>relatedLogs\<close> id absent from the catalog never makes the
  resolver fail, also when that id is in the active set. The code guards the edge only by
  \<open>activeNodes.has(relatedId)\<close>; for an active id that no catalog entry has,
  \<open>filteredData.find(...)!\<close> is \<open>undefined\<close> and \<open>findPivotProperties\<close> throws a
  \<open>TypeError\<close>. Evaluated on the catalog whose only entry \<open>conn\<close> lists \<open>ghost\<close>, with the
  active set \<open>{conn, ghost}\<close>: link construction throws (and with it the effect, before
  any simulation is constructed).
\<close>

theorem dangling_active_id_throws:
  "build_links dangling_catalog dangling_active = Inl TypeError"
  by code_simp

lemma dangling_active_id_effect:
  "graph_effect True sample_dimensions dangling_catalog dangling_active = Thrown TypeError"
  by code_simp

section \<open>Pivot tags\<close>

text \<open>
  C2, as stated, at the sample catalog. The edge \<open>conn\<close>--\<open>dns\<close> is produced, both of its
  log types have a field whose name contains \<open>id.orig_h\<close>, and the tag \<open>ip\<close> is not among
  the edge's pivot properties: the code pushes the string \<open>IP\<close>.
\<close>

theorem ip_tag_spelling_counterexample:
  "build_links sample_catalog sample_active = Inr sample_links \<and>
   source (sample_links ! 0) = log_id sample_conn \<and>
   target (sample_links ! 0) = log_id sample_dns \<and>
   hasIpFields sample_conn \<and> hasIpFields sample_dns \<and>
   ''ip'' \<notin> set (pivotProperties (sample_links ! 0))"
  by code_simp

text \<open>
  C2, amended. For every edge the resolver produces, both ids are found in the active part
  of the catalog, and for the two log types found: \<open>ts\<close> is among the pivot properties;
  \<open>uid\<close>, \<open>hash\<close> and \<open>hostname\<close> are among them exactly when both log types pass the
  corresponding field test; the tag of the IP test is spelled \<open>IP\<close> and is among them
  exactly when both log types have a field whose name contains \<open>id.orig_h\<close> or
  \<open>id.resp_h\<close>; the string \<open>ip\<close> is never among them.
\<close>

theorem pivot_tags_of_edges:
  assumes "build_links data act = Inr links" and "link \<in> set links"
  shows "\<exists>s t. find (\<lambda>l. log_id l = source link) (filteredData data act) = Some s \<and>
               find (\<lambda>l. log_id l = target link) (filteredData data act) = Some t \<and>
               ''ts'' \<in> set (pivotProperties link) \<and>
               (''uid'' \<in> set (pivotProperties link) \<longleftrightarrow> hasUidField s \<and> hasUidField t) \<and>
               (''IP'' \<in> set (pivotProperties link) \<longleftrightarrow> hasIpFields s \<and> hasIpFields t) \<and>
               (''hash'' \<in> set (pivotProperties link) \<longleftrightarrow> hasHashFields s \<and> hasHashFields t) \<and>
               (''hostname'' \<in> set (pivotProperties link) \<longleftrightarrow> hasHostFields s \<and> hasHostFields t) \<and>
               ''ip'' \<notin> set (pivotProperties link)"
proof -
  from build_links_edge_ok[OF assms(1)] assms(2) have "edge_ok (filteredData data act) link"
    by blast
  then obtain s t where
    st: "find (\<lambda>l. log_id l = source link) (filteredData data act) = Some s"
        "find (\<lambda>l. log_id l = target link) (filteredData data act) = Some t"
        "pivotProperties link = pivots_of s t"
    unfolding edge_ok_def by blast
  show ?thesis
    using st(1,2) unfolding st(3) by (simp add: pivots_of_tags)
qed

theorem pivot_tags_of_edges_witness:
  "build_links sample_catalog sample_active = Inr sample_links \<and>
   sample_links ! 0 \<in> set sample_links \<and>
   (\<exists>s t. find (\<lambda>l. log_id l = source (sample_links ! 0))
            (filteredData sample_catalog sample_active) = Some s \<and>
          find (\<lambda>l. log_id l = target (sample_links ! 0))
            (filteredData sample_catalog sample_active) = Some t \<and>
          ''ts'' \<in> set (pivotProperties (sample_links ! 0)) \<and>
          (''IP'' \<in> set (pivotProperties (sample_links ! 0)) \<longleftrightarrow> hasIpFields s \<and> hasIpFields t)) \<and>
   pivotProperties (sample_links ! 0) = [''uid'', ''IP'', ''ts'']"
proof -
  have h: "build_links sample_catalog sample_active = Inr sample_links" by code_simp
  have m: "sample_links ! 0 \<in> set sample_links" by (simp add: sample_links_def)
  have p: "pivotProperties (sample_links ! 0) = [''uid'', ''IP'', ''ts'']" by code_simp
  from pivot_tags_of_edges[OF h m] h m p show ?thesis by blast
qed

section \<open>Node radius\<close>

lemma connections_of_card:
  "connections_of act lg = card {j. j < length (relatedLogs lg) \<and> relatedLogs lg ! j \<in> act}"
  unfolding connections_of_def by (rule length_filter_conv_card)

lemma radius_make_node: "radius (make_node act lg) = max 20 (15 + 5 * connections_of act lg)"
  by (simp add: make_node_def Let_def mult.commute)

text \<open>
  C3. The node list has one node per active catalog entry, in catalog order. For the
  \<open>i\<close>-th node, with \<open>k\<close> the number of positions of that entry's \<open>relatedLogs\<close> holding an
  active id, the radius is \<open>max 20 (15 + 5 * k)\<close>; so it is 20 for \<open>k = 0\<close> and \<open>k = 1\<close>,
  25 for \<open>k = 2\<close> and 40 for \<open>k = 5\<close>.
\<close>

theorem node_radius_formula:
  assumes "i < length (nodes data act)"
  shows "i < length (filteredData data act) \<and>
         node_id (nodes data act ! i) = log_id (filteredData data act ! i) \<and>
         (\<exists>k. k = card {j. j < length (relatedLogs (filteredData data act ! i)) \<and>
                          relatedLogs (filteredData data act ! i) ! j \<in> act} \<and>
              radius (nodes data act ! i) = max 20 (15 + 5 * k) \<and>
              (k = 0 \<longrightarrow> radius (nodes data act ! i) = 20) \<and>
              (k = 1 \<longrightarrow> radius (nodes data act ! i) = 20) \<and>
              (k = 2 \<longrightarrow> radius (nodes data act ! i) = 25) \<and>
              (k = 5 \<longrightarrow> radius (nodes data act ! i) = 40))"
proof -
  let ?fd = "filteredData data act"
  from assms have i: "i < length ?fd" by (simp add: nodes_def)
  then have n: "nodes data act ! i = make_node act (?fd ! i)" by (simp add: nodes_def)
  have r: "radius (nodes data act ! i) = max 20 (15 + 5 * connections_of act (?fd ! i))"
    unfolding n by (rule radius_make_node)
  have idn: "node_id (nodes data act ! i) = log_id (?fd ! i)"
    unfolding n by (simp add: make_node_def Let_def)
  from r have "radius (nodes data act ! i) = max 20 (15 + 5 * card {j. j < length (relatedLogs (?fd ! i)) \<and>
                          relatedLogs (?fd ! i) ! j \<in> act})"
    by (simp only: connections_of_card)
  then show ?thesis using i idn by auto
qed

theorem node_radius_formula_witness:
  "0 < length (nodes sample_catalog sample_active) \<and>
   node_id (nodes sample_catalog sample_active ! 0) = ''conn'' \<and>
   radius (nodes sample_catalog sample_active ! 0) = 25 \<and>
   radius (nodes sample_catalog sample_active ! 0) =
     max 20 (15 + 5 * card {j. j < length (relatedLogs (filteredData sample_catalog sample_active ! 0)) \<and>
                          relatedLogs (filteredData sample_catalog sample_active ! 0) ! j \<in> sample_active})"
proof -
  have h: "0 < length (nodes sample_catalog sample_active)" by code_simp
  have a: "node_id (nodes sample_catalog sample_active ! 0) = ''conn''" by code_simp
  have b: "radius (nodes sample_catalog sample_active ! 0) = 25" by code_simp
  from node_radius_formula[OF h] a b h show ?thesis by blast
qed

section \<open>Edge deduplication\<close>

text \<open>
  In every edge list the resolver returns, an unordered pair of ids is joined by at most
  one edge; and when two distinct active catalog entries list each other, exactly one
  edge joins their ids.
\<close>

lemma edge_dedup_of_returned_list:
  assumes "build_links data act = Inr links"
  shows "(\<forall>a b. length (filter (\<lambda>link. endpoints link = {a, b}) links) \<le> 1) \<and>
         (\<forall>A B. A \<in> set data \<and> B \<in> set data \<and> log_id A \<in> act \<and> log_id B \<in> act \<and>
                log_id A \<noteq> log_id B \<and>
                log_id B \<in> set (relatedLogs A) \<and> log_id A \<in> set (relatedLogs B) \<longrightarrow>
                length (filter (\<lambda>link. endpoints link = {log_id A, log_id B}) links) = 1)"
proof -
  have d: "distinct (map endpoints links)" by (rule build_links_distinct[OF assms])
  have le: "length (filter (\<lambda>link. endpoints link = p) links) \<le> 1" for p
    by (rule distinct_map_count_le1[OF d])
  have ge: "1 \<le> length (filter (\<lambda>link. endpoints link = {log_id A, log_id B}) links)"
    if "A \<in> set data" "log_id A \<in> act" "log_id B \<in> act" "log_id A \<noteq> log_id B"
       "log_id B \<in> set (relatedLogs A)" for A B :: ZeekLogType
    by (rule member_count_pos) (rule build_links_covers[OF assms that(1,2,5,3,4)])
  show ?thesis
  proof (intro conjI allI impI)
    fix a b show "length (filter (\<lambda>link. endpoints link = {a, b}) links) \<le> 1" by (rule le)
  next
    fix A B
    assume h: "A \<in> set data \<and> B \<in> set data \<and> log_id A \<in> act \<and> log_id B \<in> act \<and>
                log_id A \<noteq> log_id B \<and>
                log_id B \<in> set (relatedLogs A) \<and> log_id A \<in> set (relatedLogs B)"
    then have "1 \<le> length (filter (\<lambda>link. endpoints link = {log_id A, log_id B}) links)"
      using ge by blast
    moreover have "length (filter (\<lambda>link. endpoints link = {log_id A, log_id B}) links) \<le> 1"
      by (rule le)
    ultimately show "length (filter (\<lambda>link. endpoints link = {log_id A, log_id B}) links) = 1"
      by simp
  qed
qed

lemma edge_dedup_sample:
  "build_links sample_catalog sample_active = Inr sample_links \<and>
   sample_conn \<in> set sample_catalog \<and> sample_dns \<in> set sample_catalog \<and>
   log_id sample_dns \<in> set (relatedLogs sample_conn) \<and>
   log_id sample_conn \<in> set (relatedLogs sample_dns) \<and>
   length (filter (\<lambda>link. endpoints link = {log_id sample_conn, log_id sample_dns}) sample_links) = 1 \<and>
   length (filter (\<lambda>link. endpoints link = {''dns'', ''http''}) sample_links) \<le> 1"
proof -
  have h: "build_links sample_catalog sample_active = Inr sample_links" by code_simp
  have m: "sample_conn \<in> set sample_catalog" "sample_dns \<in> set sample_catalog"
    by (simp_all add: sample_catalog_def)
  have a: "log_id sample_conn \<in> sample_active" "log_id sample_dns \<in> sample_active"
    "log_id sample_conn \<noteq> log_id sample_dns"
    "log_id sample_dns \<in> set (relatedLogs sample_conn)"
    "log_id sample_conn \<in> set (relatedLogs sample_dns)"
    by code_simp+
  from edge_dedup_of_returned_list[OF h] m a show ?thesis using h by blast
qed

text \<open>
  C4. The claim is that for every catalog and active set two active entries that list
  each other are joined by exactly one edge. The resolver yields an edge list only when
  link construction returns. On the catalog where \<open>conn\<close> and \<open>dns\<close> list each other and
  \<open>conn\<close> also lists the missing id \<open>ghost\<close>, with \<open>conn\<close>, \<open>dns\<close> and \<open>ghost\<close> active, the
  edge \<open>conn\<close>--\<open>dns\<close> is pushed and then the entry \<open>ghost\<close> makes \<open>findPivotProperties\<close>
  throw: link construction ends in a \<open>TypeError\<close> and no edge list, hence no edge for
  the pair, is produced. This is the defect of C1.
\<close>

theorem mutual_pair_with_dangling_id_throws:
  "sample_conn\<lparr> relatedLogs := [''dns'', ''ghost''] \<rparr> \<in> set mutual_dangling_catalog \<and>
   sample_dns \<in> set mutual_dangling_catalog \<and>
   ''conn'' \<in> mutual_dangling_active \<and> ''dns'' \<in> mutual_dangling_active \<and>
   ''dns'' \<in> set (relatedLogs (sample_conn\<lparr> relatedLogs := [''dns'', ''ghost''] \<rparr>)) \<and>
   ''conn'' \<in> set (relatedLogs sample_dns) \<and>
   build_links mutual_dangling_catalog mutual_dangling_active = Inl TypeError"
proof -
  have m: "sample_conn\<lparr> relatedLogs := [''dns'', ''ghost''] \<rparr> \<in> set mutual_dangling_catalog"
    "sample_dns \<in> set mutual_dangling_catalog"
    by (simp_all add: mutual_dangling_catalog_def)
  have a: "''conn'' \<in> mutual_dangling_active" "''dns'' \<in> mutual_dangling_active"
    by (simp_all add: mutual_dangling_active_def)
  have r: "''dns'' \<in> set (relatedLogs (sample_conn\<lparr> relatedLogs := [''dns'', ''ghost''] \<rparr>))"
    "''conn'' \<in> set (relatedLogs sample_dns)"
    by (simp_all add: sample_dns_def)
  have t: "build_links mutual_dangling_catalog mutual_dangling_active = Inl TypeError"
    by code_simp
  from m a r t show ?thesis by blast
qed

section \<open>Selection and the active set\<close>

lemma fold_toggle_each_disable:
  "fold (toggle_each False c) logs (a, p) =
     (a - log_id ` set logs, if \<exists>lg\<in>set logs. c = Some (log_id lg) then None else p)"
  by (induction logs arbitrary: a p) (auto simp: toggle_each_def)

lemma toggleAllInCategory_disable:
  "toggleAllInCategory zeekLogs c False st =
     st\<lparr> activeNodes := activeNodes st - log_id ` set (categoryLogs zeekLogs c),
         selectedNode := (if \<exists>lg\<in>set (categoryLogs zeekLogs c). selectedNode st = Some (log_id lg)
                          then None else selectedNode st) \<rparr>"
  by (simp add: toggleAllInCategory_def fold_toggle_each_disable)

text \<open>
  C5. Toggling an id that is active and selected removes it from the active set and
  clears the selection; disabling all log types of a category clears the selection when
  the selected id is the id of a catalog entry of that category.
\<close>

theorem selection_cleared_on_disable:
  "(nodeId \<in> activeNodes st \<and> selectedNode st = Some nodeId \<longrightarrow>
      selectedNode (toggleNode nodeId st) = None \<and> nodeId \<notin> activeNodes (toggleNode nodeId st)) \<and>
   ((\<exists>lg\<in>set zeekLogs. log_category lg = categoryId \<and> selectedNode st = Some (log_id lg)) \<longrightarrow>
      selectedNode (toggleAllInCategory zeekLogs categoryId False st) = None)"
  by (auto simp: toggleNode_def toggleAllInCategory_disable categoryLogs_def)

theorem selection_cleared_on_disable_witness:
  "''dns'' \<in> activeNodes sample_state \<and> selectedNode sample_state = Some ''dns'' \<and>
   selectedNode (toggleNode ''dns'' sample_state) = None \<and>
   ''dns'' \<notin> activeNodes (toggleNode ''dns'' sample_state) \<and>
   sample_dns \<in> set sample_catalog \<and> log_category sample_dns = ''network'' \<and>
   selectedNode sample_state = Some (log_id sample_dns) \<and>
   selectedNode (toggleAllInCategory sample_catalog ''network'' False sample_state) = None"
proof -
  have a: "''dns'' \<in> activeNodes sample_state" by code_simp
  have b: "selectedNode sample_state = Some ''dns''" by code_simp
  have c: "sample_dns \<in> set sample_catalog" by (simp add: sample_catalog_def)
  have d: "log_category sample_dns = ''network''" by code_simp
  have e: "selectedNode sample_state = Some (log_id sample_dns)" by code_simp
  from selection_cleared_on_disable[of "''dns''" sample_state sample_catalog "''network''"] a b c d e
  show ?thesis by blast
qed

text \<open>
  C6. Disabling all log types of a category a second time leaves the active set as the
  first call left it.
\<close>

theorem disable_all_idempotent:
  "activeNodes (toggleAllInCategory zeekLogs categoryId False
      (toggleAllInCategory zeekLogs categoryId False st)) =
   activeNodes (toggleAllInCategory zeekLogs categoryId False st)"
  by (auto simp: toggleAllInCategory_disable)

theorem disable_all_idempotent_witness:
  "activeNodes (toggleAllInCategory sample_catalog ''network'' False
      (toggleAllInCategory sample_catalog ''network'' False sample_state)) =
   activeNodes (toggleAllInCategory sample_catalog ''network'' False sample_state) \<and>
   activeNodes (toggleAllInCategory sample_catalog ''network'' False sample_state) = {''http''}"
proof -
  have "activeNodes (toggleAllInCategory sample_catalog ''network'' False sample_state) = {''http''}"
    by code_simp
  with disable_all_idempotent[of sample_catalog "''network''" sample_state] show ?thesis by simp
qed

section \<open>Degenerate inputs of the graph\<close>

text \<open>
  C7. With an empty active set the effect returns before any simulation is constructed,
  no simulation is running, and the "No Log Types Selected" overlay is rendered.
\<close>

theorem empty_active_set_no_simulation:
  assumes "act = {}"
  shows "graph_effect svgRef_current dimensions data act = NotStarted \<and>
         simulation (GraphVisualization svgRef_current dimensions data act) = None \<and>
         emptyStateShown (GraphVisualization svgRef_current dimensions data act)"
  using assms by (simp add: graph_effect_def GraphVisualization_def filteredData_def)

theorem empty_active_set_no_simulation_witness:
  "graph_effect True sample_dimensions sample_catalog {} = NotStarted \<and>
   simulation (GraphVisualization True sample_dimensions sample_catalog {}) = None \<and>
   emptyStateShown (GraphVisualization True sample_dimensions sample_catalog {}) \<and>
   simulation (GraphVisualization True sample_dimensions sample_catalog sample_active) \<noteq> None \<and>
   \<not> emptyStateShown (GraphVisualization True sample_dimensions sample_catalog sample_active)"
proof -
  have "simulation (GraphVisualization True sample_dimensions sample_catalog sample_active) \<noteq> None"
    by code_simp
  moreover have "\<not> emptyStateShown (GraphVisualization True sample_dimensions sample_catalog sample_active)"
    by (simp add: GraphVisualization_def sample_active_def)
  ultimately show ?thesis
    using empty_active_set_no_simulation[of "{}" True sample_dimensions sample_catalog] by simp
qed

text \<open>
  C8. With a measured width or height of zero the effect returns before any simulation is
  constructed, so no simulation is centred on a point derived from a zero-sized viewport.
\<close>

theorem zero_viewport_no_simulation:
  assumes "width dimensions = 0 \<or> height dimensions = 0"
  shows "graph_effect svgRef_current dimensions data act = NotStarted \<and>
         simulation (GraphVisualization svgRef_current dimensions data act) = None"
  using assms by (auto simp: graph_effect_def GraphVisualization_def)

theorem zero_viewport_no_simulation_witness:
  "(width (sample_dimensions\<lparr> height := 0 \<rparr>) = 0 \<or> height (sample_dimensions\<lparr> height := 0 \<rparr>) = 0) \<and>
   graph_effect True (sample_dimensions\<lparr> height := 0 \<rparr>) sample_catalog sample_active = NotStarted \<and>
   simulation (GraphVisualization True (sample_dimensions\<lparr> height := 0 \<rparr>) sample_catalog sample_active) = None \<and>
   simulation (GraphVisualization True sample_dimensions sample_catalog sample_active) \<noteq> None"
proof -
  have h: "width (sample_dimensions\<lparr> height := 0 \<rparr>) = 0 \<or> height (sample_dimensions\<lparr> height := 0 \<rparr>) = 0"
    by simp
  have "simulation (GraphVisualization True sample_dimensions sample_catalog sample_active) \<noteq> None"
    by code_simp
  with zero_viewport_no_simulation[OF h, of True sample_catalog sample_active] h show ?thesis
    by blast
qed

section \<open>Field type styling\<close>

text \<open>
  C9. The claim is that every type string outside the table gets the default slate
  style. \<open>getTypeColor\<close> does not throw, but for a string that names a member of
  \<open>Object.prototype\<close> the property read \<open>colors[type]\<close> yields that member, which is truthy,
  so the default is not taken: on \<open>constructor\<close> both versions of \<open>getTypeColor\<close> return the
  inherited member, not their default style.
\<close>

theorem getTypeColor_inherited_key:
  "getTypeColor ''constructor'' = ObjectPrototypeMember ''constructor'' \<and>
   getTypeColor ''constructor'' \<noteq> JsString default_color \<and>
   card_getTypeColor ''constructor'' = ObjectPrototypeMember ''constructor'' \<and>
   card_getTypeColor ''constructor'' \<noteq> JsString card_default_color"
  by code_simp

text \<open>
  What does hold: a type of the table gets its style, a name inherited from
  \<open>Object.prototype\<close> gets the inherited member, and every other string gets the default.
\<close>

lemma map_of_notin: "k \<notin> fst ` set kvs \<Longrightarrow> map_of kvs k = None"
  by (simp add: map_of_eq_None_iff)

lemma getTypeColor_unknown:
  assumes "type \<notin> fst ` set colors" and "type \<notin> set object_prototype_keys"
  shows "getTypeColor type = JsString default_color"
  using assms by (simp add: getTypeColor_def get_property_def map_of_notin)

lemma card_getTypeColor_unknown:
  assumes "type \<notin> fst ` set card_colors" and "type \<notin> set object_prototype_keys"
  shows "card_getTypeColor type = JsString card_default_color"
  using assms by (simp add: card_getTypeColor_def get_property_def map_of_notin)

lemma colors_distinct: "distinct (map fst colors)"
  by code_simp

lemma colors_nonempty: "\<forall>kv\<in>set colors. snd kv \<noteq> []"
  by code_simp

lemma getTypeColor_known:
  assumes "(type, style) \<in> set colors"
  shows "getTypeColor type = JsString style"
proof -
  have "map_of colors type = Some style"
    by (rule map_of_is_SomeI[OF colors_distinct assms])
  moreover from colors_nonempty assms have "style \<noteq> []" by force
  ultimately show ?thesis by (simp add: getTypeColor_def get_property_def)
qed

lemma getTypeColor_inherited:
  assumes "type \<in> set object_prototype_keys"
  shows "getTypeColor type = ObjectPrototypeMember type"
proof -
  have "\<forall>k\<in>set object_prototype_keys. k \<notin> fst ` set colors" by code_simp
  with assms have "map_of colors type = None" by (simp add: map_of_notin)
  with assms show ?thesis by (simp add: getTypeColor_def get_property_def)
qed

section \<open>Sidebar filter\<close>

text \<open>
  C10. A log type is in the filtered list exactly when it is in the catalog, its category
  is selected and, for a non-empty query, the lower-cased query is a contiguous part of
  its lower-cased name or description, or of the lower-cased name or description of one
  of its fields.
\<close>

theorem filteredLogs_membership:
  "lg \<in> set (filteredLogs toLowerCase zeekLogs selectedCats query) \<longleftrightarrow>
     lg \<in> set zeekLogs \<and> log_category lg \<in> selectedCats \<and>
     (query \<noteq> [] \<longrightarrow>
        sublist (toLowerCase query) (toLowerCase (log_name lg)) \<or>
        sublist (toLowerCase query) (toLowerCase (log_description lg)) \<or>
        (\<exists>field\<in>set (log_fields lg).
           sublist (toLowerCase query) (toLowerCase (field_name field)) \<or>
           sublist (toLowerCase query) (toLowerCase (field_description field))))"
  by (auto simp: filteredLogs_def Let_def str_includes_def list_ex_iff)

theorem filteredLogs_membership_witness:
  "sample_dns \<in> set (filteredLogs ascii_toLowerCase sample_catalog {''network''} ''QUERY'') \<and>
   sample_dns \<in> set sample_catalog \<and> log_category sample_dns \<in> {''network''} \<and>
   (sublist (ascii_toLowerCase ''QUERY'') (ascii_toLowerCase (log_name sample_dns)) \<or>
    sublist (ascii_toLowerCase ''QUERY'') (ascii_toLowerCase (log_description sample_dns)) \<or>
    (\<exists>field\<in>set (log_fields sample_dns).
       sublist (ascii_toLowerCase ''QUERY'') (ascii_toLowerCase (field_name field)) \<or>
       sublist (ascii_toLowerCase ''QUERY'') (ascii_toLowerCase (field_description field)))) \<and>
   map log_id (filteredLogs ascii_toLowerCase sample_catalog {''network''} ''QUERY'') = [''dns''] \<and>
   map log_id (filteredLogs ascii_toLowerCase sample_catalog {''network''} []) = [''conn'', ''dns'']"
proof -
  have a: "filteredLogs ascii_toLowerCase sample_catalog {''network''} ''QUERY'' = [sample_dns]"
    by code_simp
  have b: "map log_id (filteredLogs ascii_toLowerCase sample_catalog {''network''} ''QUERY'') = [''dns'']"
    "map log_id (filteredLogs ascii_toLowerCase sample_catalog {''network''} []) = [''conn'', ''dns'']"
    by code_simp+
  from a have m: "sample_dns \<in> set (filteredLogs ascii_toLowerCase sample_catalog {''network''} ''QUERY'')"
    by simp
  from m filteredLogs_membership[of sample_dns ascii_toLowerCase sample_catalog "{''network''}" "''QUERY''"] b
  show ?thesis by simp
qed

end
